theory Spec2Isabelle
  imports Complex_Main "HOL-Library.AList"
begin

section \<open>The workbook scanner of \<open>scripts/analyze-excel-formulas.py\<close>\<close>

text \<open>
  The script opens one workbook, walks every sheet and every cell, collects two
  dictionaries per sheet (\<open>formulas\<close> and \<open>values\<close>) and prints a report. It is
  embedded here as a function from the file system (what each call of
  \<open>openpyxl.load_workbook\<close> finds) and a world (the workbook handles and the
  standard output) to a result and a new world. An exception of the script is the
  result \<open>Inl\<close>; the world it comes with is the one the process leaves behind.
\<close>

subsection \<open>Python values, cells, workbooks\<close>

text \<open>
  A cell value as openpyxl hands it to the script. The scan only tests a value for
  \<open>None\<close>, for being a \<open>str\<close> and for equality with the empty string, and otherwise
  stores and prints it, so a float is carried by its exact value.
\<close>

datatype pyval = PNone | PStr string | PInt int | PFloat rat | PBool bool

text \<open>A cell of a loaded workbook: \<open>cell.column_letter\<close>, \<open>cell.row\<close>, \<open>cell.value\<close>.\<close>

record cell =
  column_letter :: string
  row :: nat
  cell_value :: pyval

text \<open>
  A cell as the file stores it: its raw content (the formula text for a formula cell)
  and the value cached by the spreadsheet tool that wrote the file (\<open>PNone\<close> when none
  was cached). \<open>load_workbook(data_only=False)\<close> shows the first,
  \<open>load_workbook(data_only=True)\<close> the second.
\<close>

record stored_cell =
  s_column_letter :: string
  s_row :: nat
  s_raw :: pyval
  s_cached :: pyval

text \<open>
  A sheet of a workbook is a worksheet or a chartsheet; \<open>wb.sheetnames\<close> lists both. A
  worksheet is given by what \<open>sheet.iter_rows()\<close> yields: the rows in order, each a
  list of cells. A chartsheet holds no cells: it has no \<open>iter_rows\<close> and cannot be
  subscripted.
\<close>

datatype 'c sheet_obj = Worksheet "'c list list" | Chartsheet

type_synonym sheet = "cell list list"
type_synonym workbook = "(string \<times> cell sheet_obj) list"
type_synonym xlsx = "(string \<times> stored_cell sheet_obj) list"

text \<open>
  The file system: what the \<open>n\<close>-th call of \<open>load_workbook\<close> (counted from 0) finds at
  \<open>file_path\<close>; \<open>None\<close> when the file cannot be opened or read at that moment.
\<close>

type_synonym filesystem = "nat \<Rightarrow> xlsx option"

text \<open>
  The exceptions of a run: \<open>load_workbook\<close> cannot open or read the file (whatever
  exception the library raises then, the specification's \<open>SourceUnavailable\<close>), a
  workbook has no sheet of the title asked for, a chartsheet has no \<open>iter_rows\<close>, a
  chartsheet is not subscriptable.
\<close>

datatype error = SourceUnavailable | KeyError | AttributeError | TypeError

text \<open>
  One constructor for each \<open>print\<close> statement of the script, with the values that
  are interpolated into the line.
\<close>

datatype out_line =
    SheetList "string list"
  | Separator
  | SheetHeader string
  | Rule
  | KeyHeading
  | KeyCell string pyval
  | FormulaHeading
  | FormulaLine string pyval
  | ValueLine pyval

text \<open>
  The world: the number of \<open>load_workbook\<close> calls made so far, the handles those calls
  returned (a handle is the number of the call that opened it), the handles on which
  \<open>close()\<close> was called, and the lines printed.
\<close>

record world =
  loads :: nat
  opened :: "nat list"
  closed :: "nat list"
  stdout :: "out_line list"

subsection \<open>The library calls the script makes\<close>

definition view :: "bool \<Rightarrow> stored_cell \<Rightarrow> cell" where
  "view data_only sc =
     \<lparr>column_letter = s_column_letter sc, row = s_row sc,
      cell_value = (if data_only then s_cached sc else s_raw sc)\<rparr>"

fun view_sheet :: "bool \<Rightarrow> stored_cell sheet_obj \<Rightarrow> cell sheet_obj" where
  "view_sheet data_only (Worksheet rows) = Worksheet (map (map (view data_only)) rows)"
| "view_sheet data_only Chartsheet = Chartsheet"

definition workbook_of :: "bool \<Rightarrow> xlsx \<Rightarrow> workbook" where
  "workbook_of data_only f = map (\<lambda>(title, sh). (title, view_sheet data_only sh)) f"

definition load_workbook :: "filesystem \<Rightarrow> bool \<Rightarrow> world \<Rightarrow> (error + nat \<times> workbook) \<times> world" where
  "load_workbook fs data_only w =
     (case fs (loads w) of
        None \<Rightarrow> (Inl SourceUnavailable, w\<lparr>loads := Suc (loads w)\<rparr>)
      | Some f \<Rightarrow>
          (Inr (loads w, workbook_of data_only f),
           w\<lparr>loads := Suc (loads w), opened := opened w @ [loads w]\<rparr>))"

definition close :: "nat \<Rightarrow> world \<Rightarrow> world" where
  "close h w = w\<lparr>closed := closed w @ [h]\<rparr>"

definition print :: "out_line list \<Rightarrow> world \<Rightarrow> world" where
  "print ls w = w\<lparr>stdout := stdout w @ ls\<rparr>"

definition sheetnames :: "workbook \<Rightarrow> string list" where
  "sheetnames wb = map fst wb"

text \<open>\<open>wb[sheet_name]\<close>: the first sheet with that title, \<open>KeyError\<close> when there is none.\<close>

definition getitem_wb :: "workbook \<Rightarrow> string \<Rightarrow> error + cell sheet_obj" where
  "getitem_wb wb sheet_name =
     (case map_of wb sheet_name of None \<Rightarrow> Inl KeyError | Some sh \<Rightarrow> Inr sh)"

text \<open>\<open>sheet.iter_rows()\<close>: the rows of a worksheet, \<open>AttributeError\<close> on a chartsheet.\<close>

fun iter_rows :: "cell sheet_obj \<Rightarrow> error + sheet" where
  "iter_rows (Worksheet rows) = Inr rows"
| "iter_rows Chartsheet = Inl AttributeError"

function str_nat :: "nat \<Rightarrow> string" where
  "str_nat n =
     (if n < 10 then [''0123456789'' ! n]
      else str_nat (n div 10) @ [''0123456789'' ! (n mod 10)])"
  by pat_completeness auto
termination
  by (relation "measure (\<lambda>n. n)") auto

declare str_nat.simps [simp del]

text \<open>\<open>f"{cell.column_letter}{cell.row}"\<close>\<close>

definition cell_addr :: "cell \<Rightarrow> string" where
  "cell_addr c = column_letter c @ str_nat (row c)"

text \<open>
  The value of the cell of a worksheet at an address; openpyxl creates an empty cell,
  whose value is \<open>None\<close>, where the worksheet holds none.
\<close>

definition getitem_value :: "sheet \<Rightarrow> string \<Rightarrow> pyval" where
  "getitem_value rows addr =
     (case find (\<lambda>c. cell_addr c = addr) (concat rows) of
        None \<Rightarrow> PNone
      | Some c \<Rightarrow> cell_value c)"

text \<open>\<open>sheet_data[cell_addr].value\<close>: \<open>TypeError\<close> when \<open>sheet_data\<close> is a chartsheet.\<close>

fun getitem_ws :: "cell sheet_obj \<Rightarrow> string \<Rightarrow> error + pyval" where
  "getitem_ws (Worksheet rows) addr = Inr (getitem_value rows addr)"
| "getitem_ws Chartsheet addr = Inl TypeError"

subsection \<open>Strings\<close>

text \<open>\<open>str.lower\<close>, for ASCII text.\<close>

definition lower_char :: "char \<Rightarrow> char" where
  "lower_char c =
     (let n = (of_char c :: nat) in if 65 \<le> n \<and> n \<le> 90 then char_of (n + 32) else c)"

definition lower :: "string \<Rightarrow> string" where
  "lower s = map lower_char s"

fun startswith :: "string \<Rightarrow> string \<Rightarrow> bool" where
  "startswith s [] = True"
| "startswith [] (p # ps) = False"
| "startswith (c # cs) (p # ps) = (c = p \<and> startswith cs ps)"

text \<open>\<open>sub in s\<close>\<close>

fun contains :: "string \<Rightarrow> string \<Rightarrow> bool" where
  "contains sub [] = (sub = [])"
| "contains sub (c # cs) = (startswith (c # cs) sub \<or> contains sub cs)"

definition keyword_list :: "string list" where
  "keyword_list =
     [''tan'', ''diameter'', ''id'', ''wall'', ''wt'', ''circ'', ''area'', ''grid'', ''hour'',
      ''segment'', ''clock'', ''shell'', ''dome'', ''paut'', ''pec'', ''tofd'', ''length'',
      ''axis'', ''access'', ''scan'', ''analysis'', ''report'', ''total'']"

text \<open>\<open>isinstance(cell.value, str) and cell.value.startswith('=')\<close>\<close>

definition is_formula_text :: "pyval \<Rightarrow> bool" where
  "is_formula_text v = (case v of PStr s \<Rightarrow> startswith s ''='' | _ \<Rightarrow> False)"

text \<open>\<open>isinstance(val, str) and any(keyword in val.lower() for keyword in [...])\<close>\<close>

definition keyword_match :: "pyval \<Rightarrow> bool" where
  "keyword_match val =
     (case val of PStr s \<Rightarrow> list_ex (\<lambda>keyword. contains keyword (lower s)) keyword_list | _ \<Rightarrow> False)"

subsection \<open>The scan\<close>

type_synonym dicts = "(string \<times> pyval) list \<times> (string \<times> pyval) list"

text \<open>
  The body of the inner loop (lines 24 to 37), on the dictionaries \<open>formulas\<close> and
  \<open>values\<close>. A Python dictionary keeps its keys in insertion order and an assignment
  to a key it holds keeps the key's place, which is \<open>AList.update\<close>. The dictionary
  \<open>values\<close> is written \<open>vals\<close> and the keyword list \<open>keyword_list\<close>, the script's names
  being reserved words here. When \<open>load_workbook\<close>, \<open>wb_data[sheet_name]\<close> or
  \<open>sheet_data[cell_addr]\<close> raises, the dictionaries are lost with the run and only the
  world remains.
\<close>

fun scan_cell :: "filesystem \<Rightarrow> string \<Rightarrow> cell \<Rightarrow> dicts \<Rightarrow> world \<Rightarrow> (error + dicts) \<times> world" where
  "scan_cell fs sheet_name c (formulas, vals) w =
     (if cell_value c \<noteq> PNone then
        (if is_formula_text (cell_value c) then
           (case load_workbook fs True w of
              (Inl e, w') \<Rightarrow> (Inl e, w')
            | (Inr (h, wb_data), w') \<Rightarrow>
                (case getitem_wb wb_data sheet_name of
                   Inl e \<Rightarrow> (Inl e, w')
                 | Inr sheet_data \<Rightarrow>
                     (case getitem_ws sheet_data (cell_addr c) of
                        Inl e \<Rightarrow> (Inl e, w')
                      | Inr calculated_value \<Rightarrow>
                          (Inr (AList.update (cell_addr c) (cell_value c) formulas,
                                AList.update (cell_addr c) calculated_value vals),
                           w'))))
         else if cell_value c \<notin> set [PStr '''', PNone] then
           (Inr (formulas, AList.update (cell_addr c) (cell_value c) vals), w)
         else (Inr (formulas, vals), w))
      else (Inr (formulas, vals), w))"

declare scan_cell.simps [simp del]

text \<open>\<open>for cell in row\<close>\<close>

fun scan_row :: "filesystem \<Rightarrow> string \<Rightarrow> cell list \<Rightarrow> dicts \<Rightarrow> world \<Rightarrow> (error + dicts) \<times> world" where
  "scan_row fs sheet_name [] d w = (Inr d, w)"
| "scan_row fs sheet_name (c # cs) d w =
     (case scan_cell fs sheet_name c d w of
        (Inl e, w') \<Rightarrow> (Inl e, w')
      | (Inr d', w') \<Rightarrow> scan_row fs sheet_name cs d' w')"

text \<open>\<open>for row in sheet.iter_rows()\<close>\<close>

fun scan_rows :: "filesystem \<Rightarrow> string \<Rightarrow> sheet \<Rightarrow> dicts \<Rightarrow> world \<Rightarrow> (error + dicts) \<times> world" where
  "scan_rows fs sheet_name [] d w = (Inr d, w)"
| "scan_rows fs sheet_name (r # rs) d w =
     (case scan_row fs sheet_name r d w of
        (Inl e, w') \<Rightarrow> (Inl e, w')
      | (Inr d', w') \<Rightarrow> scan_rows fs sheet_name rs d' w')"

text \<open>The loop of lines 41 to 46 over \<open>values.items()\<close>.\<close>

fun key_lines :: "(string \<times> pyval) list \<Rightarrow> out_line list" where
  "key_lines [] = []"
| "key_lines ((addr, val) # rest) =
     (if keyword_match val then KeyCell addr val # key_lines rest else key_lines rest)"

text \<open>The loop of lines 50 to 53 over \<open>formulas.items()\<close>.\<close>

fun formula_lines :: "(string \<times> pyval) list \<Rightarrow> (string \<times> pyval) list \<Rightarrow> out_line list" where
  "formula_lines [] vals = []"
| "formula_lines ((addr, formula) # rest) vals =
     FormulaLine addr formula #
     (case map_of vals addr of
        Some v \<Rightarrow> ValueLine v # formula_lines rest vals
      | None \<Rightarrow> formula_lines rest vals)"

text \<open>What lines 40 to 55 print for a sheet, from its two dictionaries.\<close>

definition sheet_report :: "(string \<times> pyval) list \<Rightarrow> (string \<times> pyval) list \<Rightarrow> out_line list" where
  "sheet_report formulas vals =
     [KeyHeading] @ key_lines vals @ [FormulaHeading] @ formula_lines formulas vals @ [Separator]"

text \<open>
  The body of the loop over the sheets (lines 14 to 55). The header of the sheet is
  printed (lines 15 and 16) before \<open>sheet.iter_rows()\<close> is called (line 22).
\<close>

definition scan_sheet :: "filesystem \<Rightarrow> workbook \<Rightarrow> string \<Rightarrow> world \<Rightarrow> (error + unit) \<times> world" where
  "scan_sheet fs wb sheet_name w =
     (case getitem_wb wb sheet_name of
        Inl e \<Rightarrow> (Inl e, w)
      | Inr sh \<Rightarrow>
          (case iter_rows sh of
             Inl e \<Rightarrow> (Inl e, print [SheetHeader sheet_name, Rule] w)
           | Inr rows \<Rightarrow>
               (case scan_rows fs sheet_name rows ([], []) (print [SheetHeader sheet_name, Rule] w) of
                  (Inl e, w') \<Rightarrow> (Inl e, w')
                | (Inr (formulas, vals), w') \<Rightarrow>
                    (Inr (), print (sheet_report formulas vals) w'))))"

text \<open>\<open>for sheet_name in wb.sheetnames\<close>\<close>

fun scan_sheets :: "filesystem \<Rightarrow> workbook \<Rightarrow> string list \<Rightarrow> world \<Rightarrow> (error + unit) \<times> world" where
  "scan_sheets fs wb [] w = (Inr (), w)"
| "scan_sheets fs wb (sheet_name # rest) w =
     (case scan_sheet fs wb sheet_name w of
        (Inl e, w') \<Rightarrow> (Inl e, w')
      | (Inr u, w') \<Rightarrow> scan_sheets fs wb rest w')"

text \<open>The whole script.\<close>

definition scan :: "filesystem \<Rightarrow> world \<Rightarrow> (error + unit) \<times> world" where
  "scan fs w =
     (case load_workbook fs False w of
        (Inl e, w') \<Rightarrow> (Inl e, w')
      | (Inr (h, wb), w') \<Rightarrow>
          (case scan_sheets fs wb (sheetnames wb) (print [SheetList (sheetnames wb), Separator] w') of
             (Inl e, w'') \<Rightarrow> (Inl e, w'')
           | (Inr u, w'') \<Rightarrow> (Inr (), close h w'')))"

subsection \<open>Notions of the specification\<close>

text \<open>Content that is neither absent (\<open>None\<close>) nor the empty string.\<close>

definition non_empty :: "pyval \<Rightarrow> bool" where
  "non_empty v \<longleftrightarrow> v \<noteq> PNone \<and> v \<noteq> PStr ''''"

text \<open>A file all of whose sheets are worksheets.\<close>

fun is_worksheet :: "'c sheet_obj \<Rightarrow> bool" where
  "is_worksheet (Worksheet rows) = True"
| "is_worksheet Chartsheet = False"

definition only_worksheets :: "xlsx \<Rightarrow> bool" where
  "only_worksheets f = list_all (\<lambda>(title, sh). is_worksheet sh) f"

text \<open>A file that every call of \<open>load_workbook\<close> during the run finds unchanged.\<close>

definition unmodified :: "xlsx \<Rightarrow> filesystem" where
  "unmodified f = (\<lambda>n. Some f)"

text \<open>A file that the first \<open>k\<close> calls of \<open>load_workbook\<close> find and the later ones do not.\<close>

definition removed_after :: "nat \<Rightarrow> xlsx \<Rightarrow> filesystem" where
  "removed_after k f = (\<lambda>n. if n < k then Some f else None)"

text \<open>
  What the dictionaries of a sheet say of a cell. A Formula Cell has its raw text
  recorded in \<open>formulas\<close> under its address; a Literal Cell is no key of \<open>formulas\<close>
  and has its raw value recorded in \<open>values\<close>.
\<close>

definition classified_formula :: "dicts \<Rightarrow> cell \<Rightarrow> bool" where
  "classified_formula d c \<longleftrightarrow> map_of (fst d) (cell_addr c) = Some (cell_value c)"

definition classified_literal :: "dicts \<Rightarrow> cell \<Rightarrow> bool" where
  "classified_literal d c \<longleftrightarrow>
     map_of (fst d) (cell_addr c) = None \<and> map_of (snd d) (cell_addr c) = Some (cell_value c)"

text \<open>The address of a cell of the file, as the scan renders it.\<close>

definition stored_addr :: "stored_cell \<Rightarrow> string" where
  "stored_addr sc = cell_addr (view False sc)"

text \<open>
  The value the scan of an unmodified file records in \<open>values\<close> for a cell: the cached
  resolved value for a formula, the raw content otherwise.
\<close>

definition recorded_value :: "stored_cell \<Rightarrow> pyval" where
  "recorded_value sc = (if is_formula_text (s_raw sc) then s_cached sc else s_raw sc)"












subsection \<open>A sample workbook\<close>

text \<open>
  Two sheets. The first holds a label, a number, a formula with a cached value, a
  formula that names a keyword and has no cached value, then a row with an absent
  cell, an empty string, and a formula whose cached value is a label. The second
  holds one formula.
\<close>

definition example_rows1 :: "stored_cell list list" where
  "example_rows1 =
     [[\<lparr>s_column_letter = ''A'', s_row = 1, s_raw = PStr ''Tank Diameter'',
        s_cached = PStr ''Tank Diameter''\<rparr>,
       \<lparr>s_column_letter = ''B'', s_row = 1, s_raw = PInt 12, s_cached = PInt 12\<rparr>,
       \<lparr>s_column_letter = ''C'', s_row = 1, s_raw = PStr ''=B1*2'', s_cached = PInt 24\<rparr>,
       \<lparr>s_column_letter = ''D'', s_row = 1, s_raw = PStr ''=Total*2'', s_cached = PNone\<rparr>],
      [\<lparr>s_column_letter = ''A'', s_row = 2, s_raw = PNone, s_cached = PNone\<rparr>,
       \<lparr>s_column_letter = ''B'', s_row = 2, s_raw = PStr '''', s_cached = PStr ''''\<rparr>,
       \<lparr>s_column_letter = ''C'', s_row = 2, s_raw = PStr ''=A1'',
        s_cached = PStr ''Tank Diameter''\<rparr>]]"

definition example_rows2 :: "stored_cell list list" where
  "example_rows2 =
     [[\<lparr>s_column_letter = ''A'', s_row = 1, s_raw = PStr ''=Sheet1!B1'', s_cached = PInt 12\<rparr>]]"

definition example_xlsx :: xlsx where
  "example_xlsx = [(''Sheet1'', Worksheet example_rows1), (''Sheet2'', Worksheet example_rows2)]"

text \<open>The first sheet again, followed by a chartsheet.\<close>

definition example_chart_xlsx :: xlsx where
  "example_chart_xlsx = [(''Sheet1'', Worksheet example_rows1), (''Chart1'', Chartsheet)]"

definition example_sheet1 :: sheet where
  "example_sheet1 = map (map (view False)) example_rows1"

definition example_formulas1 :: "(string \<times> pyval) list" where
  "example_formulas1 =
     [(''C1'', PStr ''=B1*2''), (''D1'', PStr ''=Total*2''), (''C2'', PStr ''=A1'')]"

definition example_vals1 :: "(string \<times> pyval) list" where
  "example_vals1 =
     [(''A1'', PStr ''Tank Diameter''), (''B1'', PInt 12), (''C1'', PInt 24), (''D1'', PNone),
      (''C2'', PStr ''Tank Diameter'')]"

definition cell_B1 :: cell where
  "cell_B1 = \<lparr>column_letter = ''B'', row = 1, cell_value = PInt 12\<rparr>"

definition cell_C1 :: cell where
  "cell_C1 = \<lparr>column_letter = ''C'', row = 1, cell_value = PStr ''=B1*2''\<rparr>"

definition cell_A2 :: cell where
  "cell_A2 = \<lparr>column_letter = ''A'', row = 2, cell_value = PNone\<rparr>"

definition stored_C2 :: stored_cell where
  "stored_C2 = \<lparr>s_column_letter = ''C'', s_row = 2, s_raw = PStr ''=A1'',
                 s_cached = PStr ''Tank Diameter''\<rparr>"

definition stored_D1 :: stored_cell where
  "stored_D1 = \<lparr>s_column_letter = ''D'', s_row = 1, s_raw = PStr ''=Total*2'', s_cached = PNone\<rparr>"



definition w_start :: world where
  "w_start = \<lparr>loads = 0, opened = [], closed = [], stdout = []\<rparr>"

section \<open>Properties\<close>

subsection \<open>Frames and single steps\<close>

lemma is_formula_text_simps [simp]:
  "\<not> is_formula_text PNone" "\<not> is_formula_text (PStr [])"
  by (simp_all add: is_formula_text_def)

lemma is_formula_text_non_empty: "is_formula_text v \<Longrightarrow> non_empty v"
  by (cases v) (auto simp: is_formula_text_def non_empty_def)

lemma load_workbook_frame:
  "load_workbook fs b w = (r, w') \<Longrightarrow> stdout w' = stdout w \<and> closed w' = closed w"
  by (auto simp: load_workbook_def split: option.splits)

lemma scan_cell_frame:
  "scan_cell fs n c d w = (r, w') \<Longrightarrow> stdout w' = stdout w \<and> closed w' = closed w"
  by (cases d) (auto simp: scan_cell.simps load_workbook_def split: if_splits option.splits sum.splits prod.splits)

lemma scan_row_frame:
  "scan_row fs n cs d w = (r, w') \<Longrightarrow> stdout w' = stdout w \<and> closed w' = closed w"
proof (induction cs arbitrary: d w)
  case Nil
  then show ?case by simp
next
  case (Cons c cs)
  obtain r1 w1 where s: "scan_cell fs n c d w = (r1, w1)" by (cases "scan_cell fs n c d w")
  note fr = scan_cell_frame[OF s]
  show ?case
  proof (cases r1)
    case (Inl e)
    with Cons.prems s fr show ?thesis by simp
  next
    case (Inr d1)
    with Cons.prems s have "scan_row fs n cs d1 w1 = (r, w')" by simp
    from Cons.IH[OF this] fr show ?thesis by simp
  qed
qed

lemma scan_row_append:
  "scan_row fs n (xs @ ys) d w =
     (case scan_row fs n xs d w of
        (Inl e, w') \<Rightarrow> (Inl e, w')
      | (Inr d', w') \<Rightarrow> scan_row fs n ys d' w')"
  by (induction xs arbitrary: d w) (auto split: prod.splits sum.splits)

lemma scan_rows_concat: "scan_rows fs n rows d w = scan_row fs n (concat rows) d w"
  by (induction rows arbitrary: d w) (auto simp: scan_row_append split: prod.splits sum.splits)

lemma scan_cell_Inr:
  assumes "scan_cell fs n c (fm, vs) w = (Inr (fm', vs'), w')"
  shows "fm' = (if is_formula_text (cell_value c) then AList.update (cell_addr c) (cell_value c) fm else fm)"
    and "is_formula_text (cell_value c) \<Longrightarrow> \<exists>v. vs' = AList.update (cell_addr c) v vs"
    and "\<not> is_formula_text (cell_value c) \<Longrightarrow>
           vs' = (if non_empty (cell_value c) then AList.update (cell_addr c) (cell_value c) vs else vs)"
  using assms
  by (auto simp: scan_cell.simps non_empty_def split: if_splits option.splits sum.splits prod.splits)

lemma scan_cell_skip:
  "\<not> non_empty (cell_value c) \<Longrightarrow> scan_cell fs n c d w = (Inr d, w)"
  by (cases d) (auto simp: scan_cell.simps non_empty_def)

lemma scan_cell_other:
  assumes "scan_cell fs n c (fm, vs) w = (Inr (fm', vs'), w')" and "a \<noteq> cell_addr c"
  shows "map_of fm' a = map_of fm a" and "map_of vs' a = map_of vs a"
proof -
  show "map_of fm' a = map_of fm a"
    using scan_cell_Inr(1)[OF assms(1)] assms(2) by (simp add: update_conv')
  show "map_of vs' a = map_of vs a"
  proof (cases "is_formula_text (cell_value c)")
    case True
    from scan_cell_Inr(2)[OF assms(1) True] obtain v where "vs' = AList.update (cell_addr c) v vs" ..
    with assms(2) show ?thesis by (simp add: update_conv')
  next
    case False
    from scan_cell_Inr(3)[OF assms(1) False] assms(2) show ?thesis by (simp add: update_conv')
  qed
qed

lemma scan_row_Cons_Inr:
  assumes "scan_row fs n (x # xs) d w = (Inr d', w')"
  obtains d1 w1 where "scan_cell fs n x d w = (Inr d1, w1)"
    and "scan_row fs n xs d1 w1 = (Inr d', w')"
proof -
  obtain r1 w1 where s: "scan_cell fs n x d w = (r1, w1)"
    by (cases "scan_cell fs n x d w")
  with assms obtain d1 where r1: "r1 = Inr d1"
    by (cases r1) simp_all
  with assms s have "scan_row fs n xs d1 w1 = (Inr d', w')"
    by simp
  with s r1 that show thesis by blast
qed

lemma scan_row_other:
  "scan_row fs n cs (fm, vs) w = (Inr (fm', vs'), w') \<Longrightarrow> a \<notin> cell_addr ` set cs \<Longrightarrow>
     map_of fm' a = map_of fm a \<and> map_of vs' a = map_of vs a"
proof (induction cs arbitrary: fm vs w)
  case Nil
  then show ?case by simp
next
  case (Cons c cs)
  from Cons.prems(1) obtain d1 w1 where s: "scan_cell fs n c (fm, vs) w = (Inr d1, w1)"
    and rest: "scan_row fs n cs d1 w1 = (Inr (fm', vs'), w')"
    by (rule scan_row_Cons_Inr)
  obtain fm1 vs1 where d1: "d1 = (fm1, vs1)" by (cases d1)
  from Cons.prems(2) have ne: "a \<noteq> cell_addr c" and notin: "a \<notin> cell_addr ` set cs"
    by auto
  from scan_cell_other[OF s[unfolded d1] ne] Cons.IH[OF rest[unfolded d1] notin] show ?case by simp
qed

lemma scan_cell_recorded:
  assumes "scan_cell fs n c (fm, vs) w = (Inr (fm', vs'), w')"
  shows "(is_formula_text (cell_value c) \<longrightarrow>
            map_of fm' (cell_addr c) = Some (cell_value c) \<and> map_of vs' (cell_addr c) \<noteq> None) \<and>
         (\<not> is_formula_text (cell_value c) \<longrightarrow>
            map_of fm' (cell_addr c) = map_of fm (cell_addr c) \<and>
            map_of vs' (cell_addr c) =
              (if non_empty (cell_value c) then Some (cell_value c) else map_of vs (cell_addr c)))"
proof (cases "is_formula_text (cell_value c)")
  case True
  from scan_cell_Inr(2)[OF assms True] obtain v where "vs' = AList.update (cell_addr c) v vs" ..
  with scan_cell_Inr(1)[OF assms] True show ?thesis by (simp add: update_conv')
next
  case False
  with scan_cell_Inr(1)[OF assms] scan_cell_Inr(3)[OF assms False] show ?thesis
    by (simp add: update_conv')
qed

lemma scan_row_recorded:
  "scan_row fs n cs (fm, vs) w = (Inr (fm', vs'), w') \<Longrightarrow>
   distinct (map cell_addr cs) \<Longrightarrow> c \<in> set cs \<Longrightarrow>
     (is_formula_text (cell_value c) \<longrightarrow>
        map_of fm' (cell_addr c) = Some (cell_value c) \<and> map_of vs' (cell_addr c) \<noteq> None) \<and>
     (\<not> is_formula_text (cell_value c) \<longrightarrow>
        map_of fm' (cell_addr c) = map_of fm (cell_addr c) \<and>
        map_of vs' (cell_addr c) =
          (if non_empty (cell_value c) then Some (cell_value c) else map_of vs (cell_addr c)))"
proof (induction cs arbitrary: fm vs w)
  case Nil
  then show ?case by simp
next
  case (Cons x xs)
  from Cons.prems(1) obtain d1 w1 where s: "scan_cell fs n x (fm, vs) w = (Inr d1, w1)"
    and rest: "scan_row fs n xs d1 w1 = (Inr (fm', vs'), w')"
    by (rule scan_row_Cons_Inr)
  obtain fm1 vs1 where d1: "d1 = (fm1, vs1)" by (cases d1)
  note s = s[unfolded d1] and rest = rest[unfolded d1]
  show ?case
  proof (cases "c = x")
    case True
    with Cons.prems(2) have "cell_addr c \<notin> cell_addr ` set xs" by auto
    from scan_row_other[OF rest this] scan_cell_recorded[OF s] True show ?thesis by simp
  next
    case False
    with Cons.prems(2,3) have cx: "c \<in> set xs" and dx: "distinct (map cell_addr xs)"
      and ne: "cell_addr c \<noteq> cell_addr x" by (auto simp: image_iff)
    from Cons.IH[OF rest dx cx] scan_cell_other[OF s ne] show ?thesis by simp
  qed
qed

lemma scan_rows_frame:
  "scan_rows fs n rows d w = (r, w') \<Longrightarrow> stdout w' = stdout w \<and> closed w' = closed w"
  by (simp add: scan_rows_concat scan_row_frame)

lemma scan_rows_recorded:
  assumes "scan_rows fs n rows ([], []) w = (Inr (fm, vs), w')"
    and "distinct (map cell_addr (concat rows))" and "c \<in> set (concat rows)"
  shows "classified_formula (fm, vs) c \<longleftrightarrow> is_formula_text (cell_value c)"
    and "classified_literal (fm, vs) c \<longleftrightarrow> \<not> is_formula_text (cell_value c) \<and> non_empty (cell_value c)"
proof -
  from assms(1) have "scan_row fs n (concat rows) ([], []) w = (Inr (fm, vs), w')"
    by (simp add: scan_rows_concat)
  note rec = scan_row_recorded[OF this assms(2,3)]
  from rec show "classified_formula (fm, vs) c \<longleftrightarrow> is_formula_text (cell_value c)"
    by (auto simp: classified_formula_def)
  from rec is_formula_text_non_empty[of "cell_value c"]
  show "classified_literal (fm, vs) c \<longleftrightarrow> \<not> is_formula_text (cell_value c) \<and> non_empty (cell_value c)"
    by (auto simp: classified_literal_def split: if_splits)
qed

subsection \<open>What the report prints, and the keys of the dictionaries\<close>

lemma key_lines_iff: "KeyCell a v \<in> set (key_lines vs) \<longleftrightarrow> (a, v) \<in> set vs \<and> keyword_match v"
  by (induction vs rule: key_lines.induct) auto

lemma key_lines_other [simp]:
  "FormulaLine a v \<notin> set (key_lines vs)" "ValueLine v \<notin> set (key_lines vs)"
  by (induction vs rule: key_lines.induct) auto

lemma formula_lines_iff: "FormulaLine a t \<in> set (formula_lines fm vs) \<longleftrightarrow> (a, t) \<in> set fm"
  by (induction fm vs rule: formula_lines.induct) (auto split: option.splits)

lemma formula_lines_other [simp]: "KeyCell a v \<notin> set (formula_lines fm vs)"
  by (induction fm vs rule: formula_lines.induct) (auto split: option.splits)


lemma scan_cell_keys:
  assumes "scan_cell fs n c (fm, vs) w = (Inr (fm', vs'), w')"
  shows "fst ` set fm' = fst ` set fm \<union> (if is_formula_text (cell_value c) then {cell_addr c} else {})"
    and "fst ` set vs' = fst ` set vs \<union> (if non_empty (cell_value c) then {cell_addr c} else {})"
proof -
  show "fst ` set fm' = fst ` set fm \<union> (if is_formula_text (cell_value c) then {cell_addr c} else {})"
    using scan_cell_Inr(1)[OF assms] by (simp add: dom_update)
  show "fst ` set vs' = fst ` set vs \<union> (if non_empty (cell_value c) then {cell_addr c} else {})"
  proof (cases "is_formula_text (cell_value c)")
    case True
    from scan_cell_Inr(2)[OF assms True] obtain v where "vs' = AList.update (cell_addr c) v vs" ..
    with True is_formula_text_non_empty[OF True] show ?thesis by (simp add: dom_update)
  next
    case False
    from scan_cell_Inr(3)[OF assms False] show ?thesis by (simp add: dom_update)
  qed
qed

lemma scan_row_keys:
  "scan_row fs n cs (fm, vs) w = (Inr (fm', vs'), w') \<Longrightarrow>
     fst ` set fm' = fst ` set fm \<union> cell_addr ` {c \<in> set cs. is_formula_text (cell_value c)} \<and>
     fst ` set vs' = fst ` set vs \<union> cell_addr ` {c \<in> set cs. non_empty (cell_value c)}"
proof (induction cs arbitrary: fm vs w)
  case Nil
  then show ?case by simp
next
  case (Cons x xs)
  from Cons.prems obtain d1 w1 where s: "scan_cell fs n x (fm, vs) w = (Inr d1, w1)"
    and rest: "scan_row fs n xs d1 w1 = (Inr (fm', vs'), w')"
    by (rule scan_row_Cons_Inr)
  obtain fm1 vs1 where d1: "d1 = (fm1, vs1)" by (cases d1)
  note k = scan_cell_keys[OF s[unfolded d1]] and ih = Cons.IH[OF rest[unfolded d1]]
  have "fst ` set fm' = fst ` set fm \<union> cell_addr ` {c \<in> set (x # xs). is_formula_text (cell_value c)}"
    using k(1) ih by auto
  moreover
  have "fst ` set vs' = fst ` set vs \<union> cell_addr ` {c \<in> set (x # xs). non_empty (cell_value c)}"
    using k(2) ih by auto
  ultimately show ?case by simp
qed

lemma scan_rows_keys:
  assumes "scan_rows fs n rows ([], []) w = (Inr (fm, vs), w')"
  shows "fst ` set fm = cell_addr ` {c \<in> set (concat rows). is_formula_text (cell_value c)}"
    and "fst ` set vs = cell_addr ` {c \<in> set (concat rows). non_empty (cell_value c)}"
  using scan_row_keys[OF assms[unfolded scan_rows_concat]] by simp_all


subsection \<open>Sheets and the whole scan\<close>

lemma scan_sheet_worksheet:
  "getitem_wb wb n = Inr (Worksheet rows) \<Longrightarrow>
     scan_sheet fs wb n w =
       (case scan_rows fs n rows ([], []) (print [SheetHeader n, Rule] w) of
          (Inl e, w') \<Rightarrow> (Inl e, w')
        | (Inr (fm, vs), w') \<Rightarrow> (Inr (), print (sheet_report fm vs) w'))"
  by (simp add: scan_sheet_def)

lemma scan_sheet_chartsheet:
  "getitem_wb wb n = Inr Chartsheet \<Longrightarrow>
     scan_sheet fs wb n w = (Inl AttributeError, print [SheetHeader n, Rule] w)"
  by (simp add: scan_sheet_def)

lemma scan_sheet_missing:
  "getitem_wb wb n = Inl e \<Longrightarrow> scan_sheet fs wb n w = (Inl e, w)"
  by (simp add: scan_sheet_def)

lemma getitem_wb_cases:
  obtains (missing) e where "getitem_wb wb n = Inl e" "n \<notin> fst ` set wb"
  | (chartsheet) "getitem_wb wb n = Inr Chartsheet"
  | (worksheet) rows where "getitem_wb wb n = Inr (Worksheet rows)"
proof (cases "map_of wb n")
  case None
  then have "getitem_wb wb n = Inl KeyError"
    by (simp add: getitem_wb_def)
  moreover from None have "n \<notin> fst ` set wb"
    by (simp add: map_of_eq_None_iff)
  ultimately show thesis by (rule missing)
next
  case (Some sh)
  then have g: "getitem_wb wb n = Inr sh" by (simp add: getitem_wb_def)
  show thesis
  proof (cases sh)
    case (Worksheet rows)
    with g show thesis by (simp add: worksheet)
  next
    case Chartsheet
    with g show thesis by (simp add: chartsheet)
  qed
qed

lemma scan_sheet_Inr:
  assumes "scan_sheet fs wb n w = (Inr u, w')"
  obtains rows fm vs w1 where "getitem_wb wb n = Inr (Worksheet rows)"
    and "scan_rows fs n rows ([], []) (print [SheetHeader n, Rule] w) = (Inr (fm, vs), w1)"
    and "w' = print (sheet_report fm vs) w1"
proof (cases rule: getitem_wb_cases[of wb n])
  case (missing e)
  with assms show thesis by (simp add: scan_sheet_missing)
next
  case chartsheet
  with assms show thesis by (simp add: scan_sheet_chartsheet)
next
  case (worksheet rows)
  with assms that show thesis
    by (auto simp: scan_sheet_worksheet split: sum.splits prod.splits)
qed

lemma scan_sheet_Inr_frame:
  assumes "scan_sheet fs wb n w = (Inr u, w')"
  obtains fm vs where "stdout w' = stdout w @ [SheetHeader n, Rule] @ sheet_report fm vs"
    and "closed w' = closed w"
proof -
  from assms obtain rows fm vs w1 where
    r: "scan_rows fs n rows ([], []) (print [SheetHeader n, Rule] w) = (Inr (fm, vs), w1)"
    and w': "w' = print (sheet_report fm vs) w1"
    by (rule scan_sheet_Inr)
  from scan_rows_frame[OF r] w' have "stdout w' = stdout w @ [SheetHeader n, Rule] @ sheet_report fm vs"
    and "closed w' = closed w"
    by (simp_all add: print_def)
  then show thesis by (rule that)
qed

lemma scan_sheet_Inl_frame:
  assumes "scan_sheet fs wb n w = (Inl e, w')" and "n \<in> fst ` set wb"
  shows "stdout w' = stdout w @ [SheetHeader n, Rule]" and "closed w' = closed w"
proof -
  have "stdout w' = stdout w @ [SheetHeader n, Rule] \<and> closed w' = closed w"
  proof (cases rule: getitem_wb_cases[of wb n])
    case (missing e)
    with assms(2) show ?thesis by simp
  next
    case chartsheet
    with assms(1) show ?thesis by (auto simp: scan_sheet_chartsheet print_def)
  next
    case (worksheet rows)
    obtain r w1 where r: "scan_rows fs n rows ([], []) (print [SheetHeader n, Rule] w) = (r, w1)"
      by (cases "scan_rows fs n rows ([], []) (print [SheetHeader n, Rule] w)")
    from assms(1) worksheet r have "w' = w1"
      by (auto simp: scan_sheet_worksheet split: sum.splits prod.splits)
    with scan_rows_frame[OF r] show ?thesis by (simp add: print_def)
  qed
  then show "stdout w' = stdout w @ [SheetHeader n, Rule]" and "closed w' = closed w"
    by simp_all
qed

lemma scan_sheet_closed:
  "scan_sheet fs wb n w = (r, w') \<Longrightarrow> closed w' = closed w"
proof -
  assume a: "scan_sheet fs wb n w = (r, w')"
  show ?thesis
  proof (cases rule: getitem_wb_cases[of wb n])
    case (missing e)
    with a show ?thesis by (simp add: scan_sheet_missing)
  next
    case chartsheet
    with a show ?thesis by (auto simp: scan_sheet_chartsheet print_def)
  next
    case (worksheet rows)
    obtain r1 w1 where r: "scan_rows fs n rows ([], []) (print [SheetHeader n, Rule] w) = (r1, w1)"
      by (cases "scan_rows fs n rows ([], []) (print [SheetHeader n, Rule] w)")
    from a worksheet r have "closed w' = closed w1"
      by (auto simp: scan_sheet_worksheet print_def split: sum.splits prod.splits)
    with scan_rows_frame[OF r] show ?thesis by (simp add: print_def)
  qed
qed

lemma scan_sheets_closed:
  "scan_sheets fs wb names w = (r, w') \<Longrightarrow> closed w' = closed w"
proof (induction names arbitrary: w)
  case Nil
  then show ?case by simp
next
  case (Cons n names)
  obtain r1 w1 where s: "scan_sheet fs wb n w = (r1, w1)" by (cases "scan_sheet fs wb n w")
  show ?case
  proof (cases r1)
    case (Inl e)
    with Cons.prems s scan_sheet_closed[OF s] show ?thesis by simp
  next
    case (Inr u)
    with Cons.prems s have "scan_sheets fs wb names w1 = (r, w')" by simp
    from Cons.IH[OF this] scan_sheet_closed[OF s] show ?thesis by simp
  qed
qed

lemma scan_sheets_Inl:
  "scan_sheets fs wb names w = (Inl e, w') \<Longrightarrow> set names \<subseteq> fst ` set wb \<Longrightarrow>
     \<exists>pre name. stdout w' = stdout w @ pre @ [SheetHeader name, Rule]"
proof (induction names arbitrary: w)
  case Nil
  then show ?case by simp
next
  case (Cons n names)
  obtain r1 w1 where s: "scan_sheet fs wb n w = (r1, w1)" by (cases "scan_sheet fs wb n w")
  show ?case
  proof (cases r1)
    case (Inl e1)
    with Cons.prems s have "w' = w1" by simp
    with scan_sheet_Inl_frame(1)[OF s[unfolded Inl]] Cons.prems(2)
    have "stdout w' = stdout w @ [] @ [SheetHeader n, Rule]" by simp
    then show ?thesis by blast
  next
    case (Inr u1)
    with Cons.prems s have rest: "scan_sheets fs wb names w1 = (Inl e, w')" by simp
    from s Inr obtain fm vs where o: "stdout w1 = stdout w @ [SheetHeader n, Rule] @ sheet_report fm vs"
      by (auto elim: scan_sheet_Inr_frame)
    from Cons.prems(2) have "set names \<subseteq> fst ` set wb" by simp
    from Cons.IH[OF rest this] obtain pre name where
      "stdout w' = stdout w1 @ pre @ [SheetHeader name, Rule]" by blast
    with o have "stdout w' = stdout w @ ([SheetHeader n, Rule] @ sheet_report fm vs @ pre) @ [SheetHeader name, Rule]"
      by simp
    then show ?thesis by blast
  qed
qed

subsection \<open>The scan of an unmodified file\<close>

lemma scan_row_key_order:
  "scan_row fs n cs (fm, vs) w = (Inr (fm', vs'), w') \<Longrightarrow> distinct (map cell_addr cs) \<Longrightarrow>
   cell_addr ` set cs \<inter> (fst ` set fm \<union> fst ` set vs) = {} \<Longrightarrow>
     map fst fm' = map fst fm @ map cell_addr [c \<leftarrow> cs. is_formula_text (cell_value c)] \<and>
     map fst vs' = map fst vs @ map cell_addr [c \<leftarrow> cs. non_empty (cell_value c)]"
proof (induction cs arbitrary: fm vs w)
  case Nil
  then show ?case by simp
next
  case (Cons x xs)
  from Cons.prems(1) obtain d1 w1 where s: "scan_cell fs n x (fm, vs) w = (Inr d1, w1)"
    and rest: "scan_row fs n xs d1 w1 = (Inr (fm', vs'), w')"
    by (rule scan_row_Cons_Inr)
  obtain fm1 vs1 where d1: "d1 = (fm1, vs1)" by (cases d1)
  note s = s[unfolded d1] and rest = rest[unfolded d1]
  from Cons.prems(3) have fresh: "cell_addr x \<notin> set (map fst fm)" "cell_addr x \<notin> set (map fst vs)"
    by auto
  have k1: "map fst fm1 = map fst fm @ (if is_formula_text (cell_value x) then [cell_addr x] else [])"
    using scan_cell_Inr(1)[OF s] fresh(1) by (simp add: update_keys)
  have k2: "map fst vs1 = map fst vs @ (if non_empty (cell_value x) then [cell_addr x] else [])"
  proof (cases "is_formula_text (cell_value x)")
    case True
    from scan_cell_Inr(2)[OF s True] obtain v where "vs1 = AList.update (cell_addr x) v vs" ..
    with fresh(2) is_formula_text_non_empty[OF True] show ?thesis by (simp add: update_keys)
  next
    case False
    from scan_cell_Inr(3)[OF s False] fresh(2) show ?thesis by (simp add: update_keys)
  qed
  from Cons.prems(2) have dx: "distinct (map cell_addr xs)" and nx: "cell_addr x \<notin> cell_addr ` set xs"
    by auto
  have sub: "fst ` set fm1 \<union> fst ` set vs1 \<subseteq> insert (cell_addr x) (fst ` set fm \<union> fst ` set vs)"
    using scan_cell_keys[OF s] by (auto split: if_splits)
  have dis: "cell_addr ` set xs \<inter> insert (cell_addr x) (fst ` set fm \<union> fst ` set vs) = {}"
    using Cons.prems(3) nx by auto
  have "cell_addr ` set xs \<inter> (fst ` set fm1 \<union> fst ` set vs1) \<subseteq>
        cell_addr ` set xs \<inter> insert (cell_addr x) (fst ` set fm \<union> fst ` set vs)"
    using sub by (rule Int_mono[OF subset_refl])
  with dis have "cell_addr ` set xs \<inter> (fst ` set fm1 \<union> fst ` set vs1) = {}"
    by simp
  from Cons.IH[OF rest dx this] k1 k2 show ?case by simp
qed


lemma map_of_workbook_of:
  "map_of (workbook_of b f) n = map_option (view_sheet b) (map_of f n)"
  by (induction f) (auto simp: workbook_of_def)

lemma cell_addr_view [simp]: "cell_addr (view b sc) = stored_addr sc"
  by (simp add: stored_addr_def cell_addr_def view_def)

lemma cell_value_view [simp]:
  "cell_value (view True sc) = s_cached sc" "cell_value (view False sc) = s_raw sc"
  by (simp_all add: view_def)

lemma find_distinct_key:
  "distinct (map g xs) \<Longrightarrow> x \<in> set xs \<Longrightarrow> find (\<lambda>y. g y = g x) xs = Some x"
  by (induction xs) (auto simp: image_iff)

lemma getitem_value_cached:
  assumes "distinct (map stored_addr (concat srows))" and "sc \<in> set (concat srows)"
  shows "getitem_value (map (map (view True)) srows) (stored_addr sc) = s_cached sc"
proof -
  have c: "concat (map (map (view True)) srows) = map (view True) (concat srows)"
    by (simp add: map_concat)
  have "distinct (map cell_addr (map (view True) (concat srows)))"
    using assms(1) by (simp add: comp_def)
  moreover have "view True sc \<in> set (map (view True) (concat srows))"
    using assms(2) by simp
  ultimately have "find (\<lambda>y. cell_addr y = cell_addr (view True sc)) (map (view True) (concat srows)) = Some (view True sc)"
    by (rule find_distinct_key)
  then show ?thesis by (simp add: getitem_value_def c)
qed

lemma scan_cell_unmodified:
  assumes "map_of f n = Some (Worksheet srows)"
  shows "scan_cell (unmodified f) n c (fm, vs) w =
     (if is_formula_text (cell_value c) then
        (Inr (AList.update (cell_addr c) (cell_value c) fm,
              AList.update (cell_addr c) (getitem_value (map (map (view True)) srows) (cell_addr c)) vs),
         w\<lparr>loads := Suc (loads w), opened := opened w @ [loads w]\<rparr>)
      else if non_empty (cell_value c) then (Inr (fm, AList.update (cell_addr c) (cell_value c) vs), w)
      else (Inr (fm, vs), w))"
  using assms
  by (auto simp: scan_cell.simps load_workbook_def unmodified_def getitem_wb_def map_of_workbook_of
      non_empty_def)

lemma scan_cell_unmodified_result:
  assumes "map_of f n = Some (Worksheet srows)"
  shows "\<exists>d'. fst (scan_cell (unmodified f) n c d w) = Inr d' \<and>
           fst (scan_cell (unmodified f) n c d w2) = Inr d'"
  by (cases d) (simp add: scan_cell_unmodified[OF assms])

lemma scan_row_unmodified_result:
  assumes "map_of f n = Some (Worksheet srows)"
  shows "\<exists>d'. fst (scan_row (unmodified f) n cs d w) = Inr d' \<and>
           fst (scan_row (unmodified f) n cs d w2) = Inr d'"
proof (induction cs arbitrary: d w w2)
  case Nil
  then show ?case by simp
next
  case (Cons x xs)
  from scan_cell_unmodified_result[OF assms, of x d w w2] obtain d1 where
    a: "fst (scan_cell (unmodified f) n x d w) = Inr d1"
    and b: "fst (scan_cell (unmodified f) n x d w2) = Inr d1" by blast
  obtain wa where a': "scan_cell (unmodified f) n x d w = (Inr d1, wa)"
    using a by (cases "scan_cell (unmodified f) n x d w") simp
  obtain wb where b': "scan_cell (unmodified f) n x d w2 = (Inr d1, wb)"
    using b by (cases "scan_cell (unmodified f) n x d w2") simp
  from Cons.IH[of d1 wa wb] a' b' show ?case by simp
qed

lemma scan_row_resolved:
  "scan_row (unmodified f) n cs (fm, vs) w = (Inr (fm', vs'), w') \<Longrightarrow> map_of f n = Some (Worksheet srows) \<Longrightarrow>
   distinct (map cell_addr cs) \<Longrightarrow> c \<in> set cs \<Longrightarrow> is_formula_text (cell_value c) \<Longrightarrow>
     map_of vs' (cell_addr c) = Some (getitem_value (map (map (view True)) srows) (cell_addr c))"
proof (induction cs arbitrary: fm vs w)
  case Nil
  then show ?case by simp
next
  case (Cons x xs)
  from Cons.prems(1) obtain d1 w1 where s: "scan_cell (unmodified f) n x (fm, vs) w = (Inr d1, w1)"
    and rest: "scan_row (unmodified f) n xs d1 w1 = (Inr (fm', vs'), w')"
    by (rule scan_row_Cons_Inr)
  obtain fm1 vs1 where d1: "d1 = (fm1, vs1)" by (cases d1)
  note s = s[unfolded d1] and rest = rest[unfolded d1]
  show ?case
  proof (cases "c = x")
    case True
    with Cons.prems(3) have "cell_addr c \<notin> cell_addr ` set xs" by auto
    from scan_row_other[OF rest this] have "map_of vs' (cell_addr c) = map_of vs1 (cell_addr c)" by simp
    moreover from s True Cons.prems(5)
    have "vs1 = AList.update (cell_addr c) (getitem_value (map (map (view True)) srows) (cell_addr c)) vs"
      by (simp add: scan_cell_unmodified[OF Cons.prems(2)])
    ultimately show ?thesis by (simp add: update_conv')
  next
    case False
    with Cons.prems(3,4) have cx: "c \<in> set xs" and dx: "distinct (map cell_addr xs)" by auto
    from Cons.IH[OF rest Cons.prems(2) dx cx Cons.prems(5)] show ?thesis .
  qed
qed


lemma sheetnames_workbook_of [simp]: "sheetnames (workbook_of b f) = map fst f"
  by (simp add: sheetnames_def workbook_of_def split_def)


lemma formula_lines_Cons:
  "formula_lines (p # rest) vs = formula_lines [p] vs @ formula_lines rest vs"
  by (cases p) (simp split: option.splits)

lemma formula_lines_split:
  "(a, t) \<in> set fm \<Longrightarrow> map_of vs a = Some v \<Longrightarrow>
     \<exists>pre post. formula_lines fm vs = pre @ [FormulaLine a t, ValueLine v] @ post"
proof (induction fm)
  case Nil
  then show ?case by simp
next
  case (Cons p rest)
  show ?case
  proof (cases "p = (a, t)")
    case True
    with Cons.prems(2) have "formula_lines (p # rest) vs = [] @ [FormulaLine a t, ValueLine v] @ formula_lines rest vs"
      by simp
    then show ?thesis by blast
  next
    case False
    with Cons.prems(1) have "(a, t) \<in> set rest" by simp
    from Cons.IH[OF this Cons.prems(2)] obtain pre post where
      "formula_lines rest vs = pre @ [FormulaLine a t, ValueLine v] @ post" by blast
    then have "formula_lines (p # rest) vs = (formula_lines [p] vs @ pre) @ [FormulaLine a t, ValueLine v] @ post"
      by (simp add: formula_lines_Cons[of p rest])
    then show ?thesis by blast
  qed
qed

lemma scan_rows_unmodified_values:
  assumes f: "map_of f n = Some (Worksheet srows)"
    and d: "distinct (map stored_addr (concat srows))"
    and m: "sc \<in> set (concat srows)"
    and r: "scan_rows (unmodified f) n (map (map (view False)) srows) ([], []) w = (Inr (fm, vs), w')"
  shows "is_formula_text (s_raw sc) \<Longrightarrow> map_of fm (stored_addr sc) = Some (s_raw sc)"
    and "non_empty (s_raw sc) \<Longrightarrow> map_of vs (stored_addr sc) = Some (recorded_value sc)"
    and "distinct (map fst vs)"
proof -
  let ?cs = "map (view False) (concat srows)"
  have c: "concat (map (map (view False)) srows) = ?cs" by (simp add: map_concat)
  from r have r': "scan_row (unmodified f) n ?cs ([], []) w = (Inr (fm, vs), w')"
    by (simp add: scan_rows_concat c)
  from d have d': "distinct (map cell_addr ?cs)" by (simp add: comp_def)
  from m have m': "view False sc \<in> set ?cs" by simp
  note rec = scan_row_recorded[OF r' d' m']
  show "map_of fm (stored_addr sc) = Some (s_raw sc)" if "is_formula_text (s_raw sc)"
    using rec that by simp
  show "map_of vs (stored_addr sc) = Some (recorded_value sc)" if ne: "non_empty (s_raw sc)"
  proof (cases "is_formula_text (s_raw sc)")
    case True
    then have "is_formula_text (cell_value (view False sc))" by simp
    from scan_row_resolved[OF r' f d' m' this] getitem_value_cached[OF d m] True
    show ?thesis by (simp add: recorded_value_def)
  next
    case False
    with rec ne show ?thesis by (simp add: recorded_value_def)
  qed
  from scan_row_key_order[OF r' d'] have "map fst vs = map cell_addr [c \<leftarrow> ?cs. non_empty (cell_value c)]"
    by simp
  with d' show "distinct (map fst vs)" by (simp add: distinct_map_filter)
qed

lemma scan_sheet_extends:
  "scan_sheet fs wb n w = (r, w') \<Longrightarrow> \<exists>post. stdout w' = stdout w @ post"
proof -
  assume a: "scan_sheet fs wb n w = (r, w')"
  show ?thesis
  proof (cases r)
    case (Inl e)
    show ?thesis
    proof (cases "n \<in> fst ` set wb")
      case True
      from scan_sheet_Inl_frame(1)[OF a[unfolded Inl] True] show ?thesis by blast
    next
      case False
      then have "map_of wb n = None"
        by (simp add: map_of_eq_None_iff)
      then have "getitem_wb wb n = Inl KeyError"
        by (simp add: getitem_wb_def)
      with a show ?thesis by (simp add: scan_sheet_missing)
    qed
  next
    case (Inr u)
    from a[unfolded Inr] obtain fm vs where
      "stdout w' = stdout w @ [SheetHeader n, Rule] @ sheet_report fm vs"
      by (rule scan_sheet_Inr_frame)
    then show ?thesis by blast
  qed
qed

lemma scan_sheets_extends:
  "scan_sheets fs wb names w = (r, w') \<Longrightarrow> \<exists>post. stdout w' = stdout w @ post"
proof (induction names arbitrary: w)
  case Nil
  then show ?case by simp
next
  case (Cons n names)
  obtain r1 w1 where s: "scan_sheet fs wb n w = (r1, w1)" by (cases "scan_sheet fs wb n w")
  from scan_sheet_extends[OF s] obtain p1 where p1: "stdout w1 = stdout w @ p1" by blast
  show ?case
  proof (cases r1)
    case (Inl e)
    with Cons.prems s p1 show ?thesis by auto
  next
    case (Inr u)
    with Cons.prems s have "scan_sheets fs wb names w1 = (r, w')" by simp
    from Cons.IH[OF this] obtain p2 where "stdout w' = stdout w1 @ p2" by blast
    with p1 have "stdout w' = stdout w @ (p1 @ p2)" by simp
    then show ?thesis by blast
  qed
qed

lemma scan_sheets_section:
  "scan_sheets fs wb names w = (Inr u, w') \<Longrightarrow> n \<in> set names \<Longrightarrow>
     \<exists>wa wz post. scan_sheet fs wb n wa = (Inr (), wz) \<and> stdout w' = stdout wz @ post"
proof (induction names arbitrary: w)
  case Nil
  then show ?case by simp
next
  case (Cons x names)
  obtain r1 w1 where s: "scan_sheet fs wb x w = (r1, w1)" by (cases "scan_sheet fs wb x w")
  with Cons.prems(1) have r1: "r1 = Inr ()" by (cases r1) simp_all
  with Cons.prems(1) s have rest: "scan_sheets fs wb names w1 = (Inr u, w')" by simp
  show ?case
  proof (cases "n = x")
    case True
    from scan_sheets_extends[OF rest] obtain post where "stdout w' = stdout w1 @ post" by blast
    with s r1 True show ?thesis by blast
  next
    case False
    with Cons.prems(2) have "n \<in> set names" by simp
    from Cons.IH[OF rest this] show ?thesis .
  qed
qed

lemma scan_sheet_unmodified_worksheet:
  assumes "map_of f n = Some (Worksheet srows)"
  shows "\<exists>ls. fst (scan_sheet (unmodified f) (workbook_of False f) n w) = Inr () \<and>
              stdout (snd (scan_sheet (unmodified f) (workbook_of False f) n w)) = stdout w @ ls \<and>
              fst (scan_sheet (unmodified f) (workbook_of False f) n w2) = Inr () \<and>
              stdout (snd (scan_sheet (unmodified f) (workbook_of False f) n w2)) = stdout w2 @ ls"
proof -
  let ?sh = "map (map (view False)) srows"
  let ?H = "[SheetHeader n, Rule]"
  have g: "getitem_wb (workbook_of False f) n = Inr (Worksheet ?sh)"
    using assms by (simp add: getitem_wb_def map_of_workbook_of)
  from scan_row_unmodified_result[OF assms, of "concat ?sh" "([], [])" "print ?H w" "print ?H w2"]
  obtain dd where a: "fst (scan_rows (unmodified f) n ?sh ([], []) (print ?H w)) = Inr dd"
    and b: "fst (scan_rows (unmodified f) n ?sh ([], []) (print ?H w2)) = Inr dd"
    by (auto simp: scan_rows_concat)
  obtain fm vs where dd: "dd = (fm, vs)" by (cases dd)
  obtain wa where a': "scan_rows (unmodified f) n ?sh ([], []) (print ?H w) = (Inr (fm, vs), wa)"
    using a dd by (cases "scan_rows (unmodified f) n ?sh ([], []) (print ?H w)") simp
  obtain wb where b': "scan_rows (unmodified f) n ?sh ([], []) (print ?H w2) = (Inr (fm, vs), wb)"
    using b dd by (cases "scan_rows (unmodified f) n ?sh ([], []) (print ?H w2)") simp
  from scan_rows_frame[OF a'] scan_rows_frame[OF b'] a' b'
  have "fst (scan_sheet (unmodified f) (workbook_of False f) n w) = Inr () \<and>
        stdout (snd (scan_sheet (unmodified f) (workbook_of False f) n w)) = stdout w @ (?H @ sheet_report fm vs) \<and>
        fst (scan_sheet (unmodified f) (workbook_of False f) n w2) = Inr () \<and>
        stdout (snd (scan_sheet (unmodified f) (workbook_of False f) n w2)) = stdout w2 @ (?H @ sheet_report fm vs)"
    by (simp add: scan_sheet_worksheet[OF g] print_def)
  then show ?thesis by blast
qed

lemma scan_sheet_unmodified:
  "fst (scan_sheet (unmodified f) (workbook_of False f) n w) =
     fst (scan_sheet (unmodified f) (workbook_of False f) n w2) \<and>
   (\<exists>ls. stdout (snd (scan_sheet (unmodified f) (workbook_of False f) n w)) = stdout w @ ls \<and>
         stdout (snd (scan_sheet (unmodified f) (workbook_of False f) n w2)) = stdout w2 @ ls)"
proof (cases rule: getitem_wb_cases[of "workbook_of False f" n])
  case (missing e)
  then have "stdout (snd (scan_sheet (unmodified f) (workbook_of False f) n w)) = stdout w @ []"
    "stdout (snd (scan_sheet (unmodified f) (workbook_of False f) n w2)) = stdout w2 @ []"
    by (simp_all add: scan_sheet_missing)
  with missing show ?thesis by (auto simp: scan_sheet_missing)
next
  case chartsheet
  then have "stdout (snd (scan_sheet (unmodified f) (workbook_of False f) n w)) = stdout w @ [SheetHeader n, Rule]"
    "stdout (snd (scan_sheet (unmodified f) (workbook_of False f) n w2)) = stdout w2 @ [SheetHeader n, Rule]"
    by (simp_all add: scan_sheet_chartsheet print_def)
  with chartsheet show ?thesis by (auto simp: scan_sheet_chartsheet)
next
  case (worksheet rows)
  then obtain sh where sh: "map_of f n = Some sh" and v: "view_sheet False sh = Worksheet rows"
    by (cases "map_of f n") (simp_all add: getitem_wb_def map_of_workbook_of)
  from v obtain srows where "sh = Worksheet srows" by (cases sh) simp_all
  with sh have "map_of f n = Some (Worksheet srows)" by simp
  from scan_sheet_unmodified_worksheet[OF this, of w w2] show ?thesis by auto
qed

lemma scan_sheets_unmodified:
  "fst (scan_sheets (unmodified f) (workbook_of False f) names w) =
     fst (scan_sheets (unmodified f) (workbook_of False f) names w2) \<and>
   (\<exists>ls. stdout (snd (scan_sheets (unmodified f) (workbook_of False f) names w)) = stdout w @ ls \<and>
         stdout (snd (scan_sheets (unmodified f) (workbook_of False f) names w2)) = stdout w2 @ ls)"
proof (induction names arbitrary: w w2)
  case Nil
  then show ?case by simp
next
  case (Cons n names)
  let ?F = "unmodified f" and ?wb = "workbook_of False f"
  from scan_sheet_unmodified[of f n w w2] obtain l1 where
    r: "fst (scan_sheet ?F ?wb n w) = fst (scan_sheet ?F ?wb n w2)"
    and a: "stdout (snd (scan_sheet ?F ?wb n w)) = stdout w @ l1"
    and b: "stdout (snd (scan_sheet ?F ?wb n w2)) = stdout w2 @ l1"
    by blast
  obtain r1 wa where a': "scan_sheet ?F ?wb n w = (r1, wa)"
    by (cases "scan_sheet ?F ?wb n w")
  with r obtain wb where b': "scan_sheet ?F ?wb n w2 = (r1, wb)"
    by (cases "scan_sheet ?F ?wb n w2") simp
  show ?case
  proof (cases r1)
    case (Inl e)
    with a b a' b' have "fst (scan_sheets ?F ?wb (n # names) w) = fst (scan_sheets ?F ?wb (n # names) w2) \<and>
        stdout (snd (scan_sheets ?F ?wb (n # names) w)) = stdout w @ l1 \<and>
        stdout (snd (scan_sheets ?F ?wb (n # names) w2)) = stdout w2 @ l1"
      by simp
    then show ?thesis by blast
  next
    case (Inr u)
    from Cons.IH[of wa wb] obtain l2 where
      c: "fst (scan_sheets ?F ?wb names wa) = fst (scan_sheets ?F ?wb names wb)"
      and d: "stdout (snd (scan_sheets ?F ?wb names wa)) = stdout wa @ l2"
      and e: "stdout (snd (scan_sheets ?F ?wb names wb)) = stdout wb @ l2"
      by blast
    from Inr a b a' b' c d e
    have "fst (scan_sheets ?F ?wb (n # names) w) = fst (scan_sheets ?F ?wb (n # names) w2) \<and>
        stdout (snd (scan_sheets ?F ?wb (n # names) w)) = stdout w @ (l1 @ l2) \<and>
        stdout (snd (scan_sheets ?F ?wb (n # names) w2)) = stdout w2 @ (l1 @ l2)"
      by simp
    then show ?thesis by blast
  qed
qed

lemma scan_sheets_unmodified_ok:
  "\<forall>n \<in> set names. \<exists>srows. map_of f n = Some (Worksheet srows) \<Longrightarrow>
     fst (scan_sheets (unmodified f) (workbook_of False f) names w) = Inr ()"
proof (induction names arbitrary: w)
  case Nil
  then show ?case by simp
next
  case (Cons n names)
  let ?F = "unmodified f" and ?wb = "workbook_of False f"
  from Cons.prems obtain srows where "map_of f n = Some (Worksheet srows)" by auto
  from scan_sheet_unmodified_worksheet[OF this, of w w]
  have "fst (scan_sheet ?F ?wb n w) = Inr ()" by blast
  then obtain wa where a: "scan_sheet ?F ?wb n w = (Inr (), wa)"
    by (cases "scan_sheet ?F ?wb n w") simp
  from Cons.prems have "\<forall>n \<in> set names. \<exists>srows. map_of f n = Some (Worksheet srows)" by simp
  from Cons.IH[OF this, of wa] a show ?case by simp
qed

lemma scan_unmodified_unfold:
  "scan (unmodified f) w =
     (case scan_sheets (unmodified f) (workbook_of False f) (map fst f)
             (print [SheetList (map fst f), Separator]
                (w\<lparr>loads := Suc (loads w), opened := opened w @ [loads w]\<rparr>)) of
        (Inl e, w'') \<Rightarrow> (Inl e, w'')
      | (Inr u, w'') \<Rightarrow> (Inr (), close (loads w) w''))"
  by (simp add: scan_def load_workbook_def unmodified_def)

lemma scan_unmodified:
  "fst (scan (unmodified f) w) = fst (scan (unmodified f) w2) \<and>
   (\<exists>ls. stdout (snd (scan (unmodified f) w)) = stdout w @ ls \<and>
         stdout (snd (scan (unmodified f) w2)) = stdout w2 @ ls)"
proof -
  let ?F = "unmodified f" and ?wb = "workbook_of False f"
  let ?P = "[SheetList (map fst f), Separator]"
  let ?wa = "print ?P (w\<lparr>loads := Suc (loads w), opened := opened w @ [loads w]\<rparr>)"
  let ?wb2 = "print ?P (w2\<lparr>loads := Suc (loads w2), opened := opened w2 @ [loads w2]\<rparr>)"
  from scan_sheets_unmodified[of f "map fst f" ?wa ?wb2] obtain ls where
    r: "fst (scan_sheets ?F ?wb (map fst f) ?wa) = fst (scan_sheets ?F ?wb (map fst f) ?wb2)"
    and a: "stdout (snd (scan_sheets ?F ?wb (map fst f) ?wa)) = stdout ?wa @ ls"
    and b: "stdout (snd (scan_sheets ?F ?wb (map fst f) ?wb2)) = stdout ?wb2 @ ls"
    by blast
  obtain r1 w3 where a': "scan_sheets ?F ?wb (map fst f) ?wa = (r1, w3)"
    by (cases "scan_sheets ?F ?wb (map fst f) ?wa")
  with r obtain w4 where b': "scan_sheets ?F ?wb (map fst f) ?wb2 = (r1, w4)"
    by (cases "scan_sheets ?F ?wb (map fst f) ?wb2") simp
  from a b a' b'
  have "fst (scan ?F w) = fst (scan ?F w2) \<and> stdout (snd (scan ?F w)) = stdout w @ (?P @ ls) \<and>
        stdout (snd (scan ?F w2)) = stdout w2 @ (?P @ ls)"
    by (cases r1) (simp_all add: scan_unmodified_unfold close_def print_def)
  then show ?thesis by blast
qed

lemma only_worksheets_map_of:
  assumes "only_worksheets f" and "n \<in> set (map fst f)"
  shows "\<exists>srows. map_of f n = Some (Worksheet srows)"
proof -
  from assms(2) obtain sh where sh: "map_of f n = Some sh"
    by (cases "map_of f n") (simp_all add: map_of_eq_None_iff)
  then have "(n, sh) \<in> set f" by (rule map_of_SomeD)
  with assms(1) have "is_worksheet sh" by (auto simp: only_worksheets_def list_all_iff)
  then obtain srows where "sh = Worksheet srows" by (cases sh) simp_all
  with sh show ?thesis by simp
qed

lemma scan_unmodified_ok:
  assumes "only_worksheets f"
  shows "fst (scan (unmodified f) w) = Inr ()"
proof -
  let ?w2 = "print [SheetList (map fst f), Separator]
               (w\<lparr>loads := Suc (loads w), opened := opened w @ [loads w]\<rparr>)"
  from only_worksheets_map_of[OF assms]
  have "\<forall>n \<in> set (map fst f). \<exists>srows. map_of f n = Some (Worksheet srows)" by blast
  from scan_sheets_unmodified_ok[OF this, of ?w2]
  obtain w3 where "scan_sheets (unmodified f) (workbook_of False f) (map fst f) ?w2 = (Inr (), w3)"
    by (cases "scan_sheets (unmodified f) (workbook_of False f) (map fst f) ?w2") simp
  then show ?thesis by (simp add: scan_unmodified_unfold)
qed

subsection \<open>The order of the scan\<close>


















subsection \<open>The sample workbook, evaluated\<close>

lemma example_scan_rows1:
  "scan_rows (unmodified example_xlsx) ''Sheet1'' example_sheet1 ([], []) w_start =
     (Inr (example_formulas1, example_vals1),
      \<lparr>loads = 3, opened = [0, 1, 2], closed = [], stdout = []\<rparr>)"
  by code_simp

lemma example_distinct1: "distinct (map cell_addr (concat example_sheet1))"
  by code_simp

lemma example_cells1: "cell_B1 \<in> set (concat example_sheet1)" "cell_C1 \<in> set (concat example_sheet1)"
  by code_simp+

lemma example_scan:
  "scan (unmodified example_xlsx) w_start =
     (Inr (),
      \<lparr>loads = 5, opened = [0, 1, 2, 3, 4], closed = [0],
       stdout =
         [SheetList [''Sheet1'', ''Sheet2''], Separator,
          SheetHeader ''Sheet1'', Rule, KeyHeading,
          KeyCell ''A1'' (PStr ''Tank Diameter''),
          KeyCell ''C2'' (PStr ''Tank Diameter''), FormulaHeading,
          FormulaLine ''C1'' (PStr ''=B1*2''), ValueLine (PInt 24),
          FormulaLine ''D1'' (PStr ''=Total*2''), ValueLine PNone,
          FormulaLine ''C2'' (PStr ''=A1''), ValueLine (PStr ''Tank Diameter''), Separator,
          SheetHeader ''Sheet2'', Rule, KeyHeading, FormulaHeading,
          FormulaLine ''A1'' (PStr ''=Sheet1!B1''), ValueLine (PInt 12), Separator]\<rparr>)"
  by code_simp

lemma example_scan_removed:
  "scan (removed_after 4 example_xlsx) w_start =
     (Inl SourceUnavailable,
      \<lparr>loads = 5, opened = [0, 1, 2, 3], closed = [],
       stdout =
         [SheetList [''Sheet1'', ''Sheet2''], Separator,
          SheetHeader ''Sheet1'', Rule, KeyHeading,
          KeyCell ''A1'' (PStr ''Tank Diameter''),
          KeyCell ''C2'' (PStr ''Tank Diameter''), FormulaHeading,
          FormulaLine ''C1'' (PStr ''=B1*2''), ValueLine (PInt 24),
          FormulaLine ''D1'' (PStr ''=Total*2''), ValueLine PNone,
          FormulaLine ''C2'' (PStr ''=A1''), ValueLine (PStr ''Tank Diameter''), Separator,
          SheetHeader ''Sheet2'', Rule]\<rparr>)"
  by code_simp

lemma example_load:
  "load_workbook (unmodified example_xlsx) False w_start =
     (Inr (0, workbook_of False example_xlsx), \<lparr>loads = 1, opened = [0], closed = [], stdout = []\<rparr>)"
  by (simp add: load_workbook_def unmodified_def w_start_def)

lemma example_load_removed:
  "load_workbook (removed_after 4 example_xlsx) False w_start =
     (Inr (0, workbook_of False example_xlsx), \<lparr>loads = 1, opened = [0], closed = [], stdout = []\<rparr>)"
  by (simp add: load_workbook_def removed_after_def w_start_def)

lemma example_stored: "stored_C2 \<in> set (concat example_rows1)" "stored_D1 \<in> set (concat example_rows1)"
  by code_simp+

lemma example_stored_distinct: "distinct (map stored_addr (concat example_rows1))"
  by code_simp

lemma example_map_of: "map_of example_xlsx ''Sheet1'' = Some (Worksheet example_rows1)"
  by (simp add: example_xlsx_def)

lemma example_scan_rows1_file:
  "scan_rows (unmodified example_xlsx) ''Sheet1'' (map (map (view False)) example_rows1) ([], []) w_start =
     (Inr (example_formulas1, example_vals1),
      \<lparr>loads = 3, opened = [0, 1, 2], closed = [], stdout = []\<rparr>)"
  using example_scan_rows1 by (simp add: example_sheet1_def)






subsection \<open>Classification of cells\<close>



text \<open>
  C7. In the scan of a sheet whose cells have distinct addresses, a cell is classified
  as a Formula Cell, with its raw text recorded in \<open>formulas\<close>, if and only if its
  content is a string that begins with \<open>=\<close>; every other cell with non-empty content
  is classified as a Literal Cell, its raw value recorded as it is in \<open>values\<close>.
\<close>

theorem classification_formula_iff:
  assumes "scan_rows fs sheet_name rows ([], []) w = (Inr (formulas, vals), w')"
    and "distinct (map cell_addr (concat rows))"
    and "c \<in> set (concat rows)"
  shows "(classified_formula (formulas, vals) c \<longleftrightarrow>
            (\<exists>s. cell_value c = PStr s \<and> startswith s ''='')) \<and>
         (non_empty (cell_value c) \<and> \<not> classified_formula (formulas, vals) c \<longrightarrow>
            classified_literal (formulas, vals) c)"
proof -
  have "is_formula_text (cell_value c) \<longleftrightarrow> (\<exists>s. cell_value c = PStr s \<and> startswith s ''='')"
    by (cases "cell_value c") (simp_all add: is_formula_text_def)
  with scan_rows_recorded[OF assms] show ?thesis by blast
qed

theorem classification_formula_iff_witness:
  "classified_formula (example_formulas1, example_vals1) cell_C1 \<and>
   non_empty (cell_value cell_B1) \<and>
   \<not> classified_formula (example_formulas1, example_vals1) cell_B1 \<and>
   classified_literal (example_formulas1, example_vals1) cell_B1"
proof -
  have f: "\<exists>s. cell_value cell_C1 = PStr s \<and> startswith s ''=''"
    by (simp add: cell_C1_def)
  have ne: "non_empty (cell_value cell_B1)"
    by code_simp
  have nf: "\<not> (\<exists>s. cell_value cell_B1 = PStr s \<and> startswith s ''='')"
    by (simp add: cell_B1_def)
  from classification_formula_iff[OF example_scan_rows1 example_distinct1 example_cells1(2)] f
  have 1: "classified_formula (example_formulas1, example_vals1) cell_C1" by blast
  from classification_formula_iff[OF example_scan_rows1 example_distinct1 example_cells1(1)] nf ne
  have 2: "\<not> classified_formula (example_formulas1, example_vals1) cell_B1 \<and>
           classified_literal (example_formulas1, example_vals1) cell_B1" by blast
  from 1 2 ne show ?thesis by blast
qed

subsection \<open>Formulas and their resolved values\<close>



subsection \<open>Empty cells\<close>

text \<open>
  C6. A cell whose content is \<open>None\<close> or the empty string is skipped: the loop body
  leaves the dictionaries and the world as they were. And every address in an entry of
  a sheet's report (a key cell line, a formula line) is the address of a cell of the
  sheet whose content was non-empty.
\<close>

theorem empty_cells_not_reported:
  assumes "scan_rows fs sheet_name rows ([], []) w = (Inr (formulas, vals), w')"
  shows "(\<not> non_empty (cell_value c0) \<longrightarrow> scan_cell fs sheet_name c0 d w0 = (Inr d, w0)) \<and>
         (KeyCell a v \<in> set (sheet_report formulas vals) \<or>
          FormulaLine a v \<in> set (sheet_report formulas vals) \<longrightarrow>
            (\<exists>c \<in> set (concat rows). cell_addr c = a \<and> non_empty (cell_value c)))"
proof -
  note k = scan_rows_keys[OF assms]
  have "\<exists>c \<in> set (concat rows). cell_addr c = a \<and> non_empty (cell_value c)"
    if "(a, v) \<in> set vals \<or> (a, v) \<in> set formulas"
  proof -
    from that have "a \<in> fst ` set vals \<or> a \<in> fst ` set formulas" by force
    with k have "a \<in> cell_addr ` {c \<in> set (concat rows). non_empty (cell_value c)} \<or>
                 a \<in> cell_addr ` {c \<in> set (concat rows). is_formula_text (cell_value c)}"
      by simp
    then obtain c where "c \<in> set (concat rows)" "cell_addr c = a"
      "non_empty (cell_value c) \<or> is_formula_text (cell_value c)" by blast
    with is_formula_text_non_empty show ?thesis by blast
  qed
  then show ?thesis
    by (auto simp: sheet_report_def scan_cell_skip key_lines_iff formula_lines_iff)
qed

theorem empty_cells_not_reported_witness:
  "\<not> non_empty (cell_value cell_A2) \<and>
   scan_cell (unmodified example_xlsx) ''Sheet1'' cell_A2 (example_formulas1, example_vals1) w_start =
     (Inr (example_formulas1, example_vals1), w_start) \<and>
   KeyCell ''A1'' (PStr ''Tank Diameter'') \<in> set (sheet_report example_formulas1 example_vals1) \<and>
   (\<exists>c \<in> set (concat example_sheet1). cell_addr c = ''A1'' \<and> non_empty (cell_value c))"
proof -
  have e: "\<not> non_empty (cell_value cell_A2)"
    by code_simp
  have k: "KeyCell ''A1'' (PStr ''Tank Diameter'') \<in> set (sheet_report example_formulas1 example_vals1)"
    by code_simp
  from empty_cells_not_reported[OF example_scan_rows1,
      of cell_A2 "(example_formulas1, example_vals1)" w_start "''A1''" "PStr ''Tank Diameter''"] e k
  show ?thesis by blast
qed

subsection \<open>Failure of the source\<close>

text \<open>
  C2, as the script behaves. The claim says that no failing run has printed a report
  entry. The script reopens the file for every formula cell, and a run in which a
  later reopening fails has printed the sections of the sheets before.
\<close>

theorem source_unavailable_counterexample:
  "fst (scan (removed_after 4 example_xlsx) w_start) = Inl SourceUnavailable \<and>
   KeyCell ''A1'' (PStr ''Tank Diameter'') \<in> set (stdout (snd (scan (removed_after 4 example_xlsx) w_start))) \<and>
   FormulaLine ''C1'' (PStr ''=B1*2'') \<in> set (stdout (snd (scan (removed_after 4 example_xlsx) w_start)))"
  by (simp add: example_scan_removed)

text \<open>
  C2, amended. If the workbook cannot be opened at the start of the scan, the scan fails
  with \<open>SourceUnavailable\<close> and has printed nothing. A scan that fails later ends its
  output with the header of the sheet it was scanning: no entry of that sheet is
  printed, and what was printed for the sheets before stays.
\<close>

theorem source_unavailable:
  "(fs (loads w) = None \<longrightarrow> scan fs w = (Inl SourceUnavailable, w\<lparr>loads := Suc (loads w)\<rparr>)) \<and>
   (fs (loads w) \<noteq> None \<and> fst (scan fs w) = Inl e \<longrightarrow>
      (\<exists>pre name. stdout (snd (scan fs w)) = stdout w @ pre @ [SheetHeader name, Rule]))"
proof -
  have "\<exists>pre name. stdout (snd (scan fs w)) = stdout w @ pre @ [SheetHeader name, Rule]"
    if "fs (loads w) \<noteq> None" and bad: "fst (scan fs w) = Inl e"
  proof -
    from that(1) obtain f where f: "fs (loads w) = Some f" by blast
    define wb where "wb = workbook_of False f"
    define w1 where "w1 = w\<lparr>loads := Suc (loads w), opened := opened w @ [loads w]\<rparr>"
    from f have l: "load_workbook fs False w = (Inr (loads w, wb), w1)"
      by (simp add: load_workbook_def wb_def w1_def)
    let ?w2 = "print [SheetList (sheetnames wb), Separator] w1"
    obtain r w3 where s: "scan_sheets fs wb (sheetnames wb) ?w2 = (r, w3)"
      by (cases "scan_sheets fs wb (sheetnames wb) ?w2")
    from bad l s have r: "r = Inl e" and sn: "snd (scan fs w) = w3"
      by (cases r; simp add: scan_def)+
    have "set (sheetnames wb) \<subseteq> fst ` set wb" by (simp add: sheetnames_def)
    from scan_sheets_Inl[OF s[unfolded r] this] obtain pre name where
      "stdout w3 = stdout ?w2 @ pre @ [SheetHeader name, Rule]" by blast
    then have "stdout w3 = stdout w @ ([SheetList (sheetnames wb), Separator] @ pre) @ [SheetHeader name, Rule]"
      by (simp add: print_def w1_def)
    with sn show ?thesis by blast
  qed
  moreover have "scan fs w = (Inl SourceUnavailable, w\<lparr>loads := Suc (loads w)\<rparr>)"
    if "fs (loads w) = None"
    using that by (simp add: scan_def load_workbook_def)
  ultimately show ?thesis by blast
qed

theorem source_unavailable_witness:
  "removed_after 0 example_xlsx (loads w_start) = None \<and>
   scan (removed_after 0 example_xlsx) w_start = (Inl SourceUnavailable, w_start\<lparr>loads := 1\<rparr>) \<and>
   removed_after 4 example_xlsx (loads w_start) \<noteq> None \<and>
   fst (scan (removed_after 4 example_xlsx) w_start) = Inl SourceUnavailable \<and>
   (\<exists>pre name. stdout (snd (scan (removed_after 4 example_xlsx) w_start)) =
      stdout w_start @ pre @ [SheetHeader name, Rule])"
proof -
  have a: "removed_after 0 example_xlsx (loads w_start) = None"
    by (simp add: removed_after_def)
  have b: "removed_after 4 example_xlsx (loads w_start) \<noteq> None"
    by (simp add: removed_after_def w_start_def)
  have c: "fst (scan (removed_after 4 example_xlsx) w_start) = Inl SourceUnavailable"
    by (simp add: example_scan_removed)
  have l: "Suc (loads w_start) = 1" by (simp add: w_start_def)
  from source_unavailable[of "removed_after 0 example_xlsx" w_start] a l
  have 1: "scan (removed_after 0 example_xlsx) w_start = (Inl SourceUnavailable, w_start\<lparr>loads := 1\<rparr>)"
    by simp
  from source_unavailable[of "removed_after 4 example_xlsx" w_start SourceUnavailable] b c
  have 2: "\<exists>pre name. stdout (snd (scan (removed_after 4 example_xlsx) w_start)) =
      stdout w_start @ pre @ [SheetHeader name, Rule]" by blast
  from a b c 1 2 show ?thesis by blast
qed

subsection \<open>Workbook handles\<close>

text \<open>
  C4, as the script behaves. The claim says that every handle acquired is closed on
  every path. A successful scan of the sample workbook leaves the four handles of the
  resolved-value views open, and a scan that fails leaves every handle open.
\<close>

theorem handles_closed_counterexample:
  "fst (scan (unmodified example_xlsx) w_start) = Inr () \<and>
   opened (snd (scan (unmodified example_xlsx) w_start)) = [0, 1, 2, 3, 4] \<and>
   closed (snd (scan (unmodified example_xlsx) w_start)) = [0] \<and>
   fst (scan (removed_after 4 example_xlsx) w_start) = Inl SourceUnavailable \<and>
   opened (snd (scan (removed_after 4 example_xlsx) w_start)) = [0, 1, 2, 3] \<and>
   closed (snd (scan (removed_after 4 example_xlsx) w_start)) = []"
  by (simp add: example_scan example_scan_removed)

text \<open>
  C4, amended. When the scan completes without error, the primary workbook handle has
  been closed when the scan exits, as its last action. When the scan fails, it exits
  without having closed any handle.
\<close>

theorem handles_closed:
  "(load_workbook fs False w = (Inr (h, wb), w1) \<and> fst (scan fs w) = Inr () \<longrightarrow>
      closed (snd (scan fs w)) = closed w @ [h]) \<and>
   (fst (scan fs w) = Inl e \<longrightarrow> closed (snd (scan fs w)) = closed w)"
proof (cases "load_workbook fs False w")
  case (Pair r0 w1')
  note fr = load_workbook_frame[OF Pair]
  show ?thesis
  proof (cases r0)
    case (Inl e0)
    with Pair fr show ?thesis by (simp add: scan_def)
  next
    case (Inr p)
    obtain h' wb' where p: "p = (h', wb')" by (cases p)
    let ?w2 = "print [SheetList (sheetnames wb'), Separator] w1'"
    obtain r w3 where s: "scan_sheets fs wb' (sheetnames wb') ?w2 = (r, w3)"
      by (cases "scan_sheets fs wb' (sheetnames wb') ?w2")
    from scan_sheets_closed[OF s] fr have c: "closed w3 = closed w" by (simp add: print_def)
    from Pair Inr p s c show ?thesis
      by (cases r) (auto simp: scan_def close_def)
  qed
qed

theorem handles_closed_witness:
  "fst (scan (unmodified example_xlsx) w_start) = Inr () \<and>
   closed (snd (scan (unmodified example_xlsx) w_start)) = closed w_start @ [0] \<and>
   fst (scan (removed_after 4 example_xlsx) w_start) = Inl SourceUnavailable \<and>
   closed (snd (scan (removed_after 4 example_xlsx) w_start)) = closed w_start"
proof -
  have ok: "fst (scan (unmodified example_xlsx) w_start) = Inr ()"
    by (simp add: example_scan)
  have bad: "fst (scan (removed_after 4 example_xlsx) w_start) = Inl SourceUnavailable"
    by (simp add: example_scan_removed)
  from handles_closed[of "unmodified example_xlsx" w_start 0 "workbook_of False example_xlsx"] example_load ok
  have 1: "closed (snd (scan (unmodified example_xlsx) w_start)) = closed w_start @ [0]" by simp
  from handles_closed[of "removed_after 4 example_xlsx" w_start _ _ _ SourceUnavailable] bad
  have 2: "closed (snd (scan (removed_after 4 example_xlsx) w_start)) = closed w_start" by simp
  from ok bad 1 2 show ?thesis by blast
qed

subsection \<open>Determinism\<close>

text \<open>
  C8. Two scans of the same unmodified file give the same result and print the same
  report, whatever the world they start in (the loads made, the handles opened and
  closed, the output printed before).
\<close>

theorem scan_deterministic:
  "fst (scan (unmodified f) w1) = fst (scan (unmodified f) w2) \<and>
   (\<exists>report. stdout (snd (scan (unmodified f) w1)) = stdout w1 @ report \<and>
              stdout (snd (scan (unmodified f) w2)) = stdout w2 @ report)"
  using scan_unmodified[of f w1 w2] by auto

theorem scan_deterministic_witness:
  "fst (scan (unmodified example_xlsx) w_start) =
     fst (scan (unmodified example_xlsx) (print [Separator] w_start)) \<and>
   (\<exists>report. stdout (snd (scan (unmodified example_xlsx) w_start)) = stdout w_start @ report \<and>
              stdout (snd (scan (unmodified example_xlsx) (print [Separator] w_start))) =
                stdout (print [Separator] w_start) @ report)"
  using scan_deterministic[of example_xlsx w_start "print [Separator] w_start"] .

subsection \<open>Keyword matches\<close>

text \<open>
  C1, as the script behaves. The claim says that a formula cell whose raw formula text
  contains a keyword is keyword-matched. Cell D1 of the sample sheet holds the formula
  \<open>=Total*2\<close>, which contains the keyword \<open>total\<close>, and the key cells printed for the
  sheet are A1 and C2 only: the loop over \<open>values\<close> sees the resolved value of D1,
  \<open>None\<close>, not its formula.
\<close>

theorem keyword_match_counterexample:
  "stored_D1 \<in> set (concat example_rows1) \<and>
   is_formula_text (s_raw stored_D1) \<and> keyword_match (s_raw stored_D1) \<and>
   scan_rows (unmodified example_xlsx) ''Sheet1'' (map (map (view False)) example_rows1) ([], []) w_start =
     (Inr (example_formulas1, example_vals1),
      \<lparr>loads = 3, opened = [0, 1, 2], closed = [], stdout = []\<rparr>) \<and>
   key_lines example_vals1 =
     [KeyCell ''A1'' (PStr ''Tank Diameter''), KeyCell ''C2'' (PStr ''Tank Diameter'')]"
proof -
  have "is_formula_text (s_raw stored_D1)" "keyword_match (s_raw stored_D1)"
    "key_lines example_vals1 =
       [KeyCell ''A1'' (PStr ''Tank Diameter''), KeyCell ''C2'' (PStr ''Tank Diameter'')]"
    by code_simp+
  with example_stored(2) example_scan_rows1_file show ?thesis by simp
qed

text \<open>
  C1, amended. In the scan of a sheet of an unmodified file whose cells have distinct
  addresses, a cell with non-empty content appears in the sheet's keyword-matched set
  exactly with the value recorded for it in \<open>values\<close>, and exactly when that value is a
  string whose lowercase form contains one of the fixed keywords. The recorded value is
  the raw content for a Literal Cell and the cached resolved value for a Formula Cell;
  the raw text of a formula is not tested.
\<close>

theorem keyword_match_on_recorded_value:
  assumes "map_of f sheet_name = Some (Worksheet srows)"
    and "distinct (map stored_addr (concat srows))"
    and "sc \<in> set (concat srows)"
    and "non_empty (s_raw sc)"
    and "scan_rows (unmodified f) sheet_name (map (map (view False)) srows) ([], []) w =
           (Inr (formulas, vals), w')"
  shows "KeyCell (stored_addr sc) v \<in> set (sheet_report formulas vals) \<longleftrightarrow>
           v = recorded_value sc \<and> keyword_match (recorded_value sc)"
proof -
  note u = scan_rows_unmodified_values[OF assms(1,2,3,5)]
  from u(3) have "(stored_addr sc, v) \<in> set vals \<longleftrightarrow> map_of vals (stored_addr sc) = Some v"
    by simp
  also from u(2)[OF assms(4)] have "\<dots> \<longleftrightarrow> v = recorded_value sc"
    by auto
  finally have "(stored_addr sc, v) \<in> set vals \<longleftrightarrow> v = recorded_value sc" .
  then show ?thesis
    by (auto simp: sheet_report_def key_lines_iff)
qed

theorem keyword_match_on_recorded_value_witness:
  "non_empty (s_raw stored_C2) \<and> is_formula_text (s_raw stored_C2) \<and>
   \<not> keyword_match (s_raw stored_C2) \<and> keyword_match (s_cached stored_C2) \<and>
   KeyCell ''C2'' (PStr ''Tank Diameter'') \<in> set (sheet_report example_formulas1 example_vals1)"
proof -
  have ne: "non_empty (s_raw stored_C2)"
    by code_simp
  have a: "stored_addr stored_C2 = ''C2''" "recorded_value stored_C2 = PStr ''Tank Diameter''"
    "keyword_match (PStr ''Tank Diameter'')" "is_formula_text (s_raw stored_C2)"
    "\<not> keyword_match (s_raw stored_C2)" "s_cached stored_C2 = PStr ''Tank Diameter''"
    by code_simp+
  from keyword_match_on_recorded_value[OF example_map_of example_stored_distinct example_stored(1) ne
      example_scan_rows1_file, of "PStr ''Tank Diameter''"] a ne
  show ?thesis by simp
qed

subsection \<open>Formulas without a cached value\<close>

text \<open>
  C3, as the script behaves. The claim says that the scan completes without an error and
  reports the formula entry for every formula cell that has no cached value. Cell D1 of
  the sample sheet is such a cell. When the file is gone at the moment the script
  reopens it for D1 (the third \<open>load_workbook\<close>), the scan raises there and no formula
  entry has been printed; and the scan of an unmodified workbook that holds a
  chartsheet raises \<open>AttributeError\<close> at \<open>sheet.iter_rows()\<close>.
\<close>

theorem missing_cached_value_counterexample:
  "stored_D1 \<in> set (concat example_rows1) \<and>
   is_formula_text (s_raw stored_D1) \<and> s_cached stored_D1 = PNone \<and>
   scan (removed_after 2 example_xlsx) w_start =
     (Inl SourceUnavailable,
      \<lparr>loads = 3, opened = [0, 1], closed = [],
       stdout = [SheetList [''Sheet1'', ''Sheet2''], Separator, SheetHeader ''Sheet1'', Rule]\<rparr>) \<and>
   fst (scan (unmodified example_chart_xlsx) w_start) = Inl AttributeError"
proof -
  have "is_formula_text (s_raw stored_D1)" "s_cached stored_D1 = PNone"
    "scan (removed_after 2 example_xlsx) w_start =
     (Inl SourceUnavailable,
      \<lparr>loads = 3, opened = [0, 1], closed = [],
       stdout = [SheetList [''Sheet1'', ''Sheet2''], Separator, SheetHeader ''Sheet1'', Rule]\<rparr>)"
    "fst (scan (unmodified example_chart_xlsx) w_start) = Inl AttributeError"
    by code_simp+
  with example_stored(2) show ?thesis by simp
qed

text \<open>
  C3, amended. If the file stays unmodified during the scan and all its sheets are
  worksheets, then for every formula cell that has no cached resolved value (in a sheet
  whose addresses are distinct) the scan completes without an error and its report
  contains the formula line of the cell, followed by the value line \<open>None\<close>.
\<close>

theorem missing_cached_value:
  assumes "only_worksheets f"
    and "map_of f sheet_name = Some (Worksheet srows)"
    and "distinct (map stored_addr (concat srows))"
    and "sc \<in> set (concat srows)"
    and "is_formula_text (s_raw sc)"
    and "s_cached sc = PNone"
  shows "fst (scan (unmodified f) w) = Inr () \<and>
         (\<exists>pre post. stdout (snd (scan (unmodified f) w)) =
            pre @ [FormulaLine (stored_addr sc) (s_raw sc), ValueLine PNone] @ post)"
proof -
  let ?F = "unmodified f" and ?wb = "workbook_of False f"
  let ?w2 = "print [SheetList (map fst f), Separator]
               (w\<lparr>loads := Suc (loads w), opened := opened w @ [loads w]\<rparr>)"
  from scan_unmodified_ok[OF assms(1)] have ok: "fst (scan ?F w) = Inr ()" .
  obtain r w3 where s: "scan_sheets ?F ?wb (map fst f) ?w2 = (r, w3)"
    by (cases "scan_sheets ?F ?wb (map fst f) ?w2")
  from ok s have r: "r = Inr ()" by (cases r) (simp_all add: scan_unmodified_unfold)
  from s r have out: "stdout (snd (scan ?F w)) = stdout w3"
    by (simp add: scan_unmodified_unfold close_def)
  from assms(2) have "sheet_name \<in> set (map fst f)"
    by (metis map_of_SomeD fst_conv image_eqI set_map)
  from scan_sheets_section[OF s[unfolded r] this] obtain wa wz post where
    sh: "scan_sheet ?F ?wb sheet_name wa = (Inr (), wz)" and o3: "stdout w3 = stdout wz @ post"
    by blast
  from sh obtain rows fm vs w1 where g: "getitem_wb ?wb sheet_name = Inr (Worksheet rows)"
    and rows: "scan_rows ?F sheet_name rows ([], []) (print [SheetHeader sheet_name, Rule] wa) = (Inr (fm, vs), w1)"
    and wz: "wz = print (sheet_report fm vs) w1"
    by (rule scan_sheet_Inr)
  from g assms(2) have sheet: "rows = map (map (view False)) srows"
    by (simp add: getitem_wb_def map_of_workbook_of)
  note u = scan_rows_unmodified_values[OF assms(2,3,4) rows[unfolded sheet]]
  from u(1)[OF assms(5)] have inf: "(stored_addr sc, s_raw sc) \<in> set fm"
    by (rule map_of_SomeD)
  from u(2)[OF is_formula_text_non_empty[OF assms(5)]] assms(5,6)
  have "map_of vs (stored_addr sc) = Some PNone" by (simp add: recorded_value_def)
  from formula_lines_split[OF inf this] obtain p q where
    "formula_lines fm vs = p @ [FormulaLine (stored_addr sc) (s_raw sc), ValueLine PNone] @ q" by blast
  with wz o3 out have "stdout (snd (scan ?F w)) =
      (stdout w1 @ [KeyHeading] @ key_lines vs @ [FormulaHeading] @ p) @
      [FormulaLine (stored_addr sc) (s_raw sc), ValueLine PNone] @ (q @ [Separator] @ post)"
    by (simp add: print_def sheet_report_def)
  then have "\<exists>pre post. stdout (snd (scan ?F w)) =
            pre @ [FormulaLine (stored_addr sc) (s_raw sc), ValueLine PNone] @ post"
    by blast
  with ok show ?thesis by blast
qed

theorem missing_cached_value_witness:
  "only_worksheets example_xlsx \<and>
   is_formula_text (s_raw stored_D1) \<and> s_cached stored_D1 = PNone \<and>
   fst (scan (unmodified example_xlsx) w_start) = Inr () \<and>
   (\<exists>pre post. stdout (snd (scan (unmodified example_xlsx) w_start)) =
      pre @ [FormulaLine ''D1'' (PStr ''=Total*2''), ValueLine PNone] @ post)"
proof -
  have a: "is_formula_text (s_raw stored_D1)" "s_cached stored_D1 = PNone"
    "stored_addr stored_D1 = ''D1''" "s_raw stored_D1 = PStr ''=Total*2''"
    "only_worksheets example_xlsx"
    by code_simp+
  from missing_cached_value[OF a(5) example_map_of example_stored_distinct example_stored(2) a(1,2),
      of w_start] a
  show ?thesis by simp
qed

subsection \<open>Order of the scan\<close>



end
